theory Spec2Isabelle
  imports Main
begin

section \<open>The browser primitives the application calls\<close>

text \<open>
  \<^verbatim>\<open>src/App.js\<close> is built on three browser primitives: the \<^verbatim>\<open>URL\<close> class,
  \<^verbatim>\<open>DOMParser\<close> with \<^verbatim>\<open>querySelectorAll\<close>, and \<^verbatim>\<open>fetch\<close>. None of them is code of
  the repository, so the model takes them as parameters: every function of the
  application receives a record of type \<open>'u platform\<close>, where \<open>'u\<close> is the type of
  URL objects. Strings are lists of 8-bit characters (the Latin-1 part of JavaScript's
  code units).

  A value that JavaScript can throw, or reject a promise with, is either an instance of
  \<^verbatim>\<open>Error\<close>, which carries a message, or some other value.
\<close>

datatype js_thrown = ErrorObj string | NonError

record 'u platform =
  url_parse :: "string \<Rightarrow> 'u option"
    \<comment> \<open>\<^verbatim>\<open>new URL(s)\<close>; \<open>None\<close> when the constructor throws\<close>
  url_resolve :: "string \<Rightarrow> 'u \<Rightarrow> 'u option"
    \<comment> \<open>\<^verbatim>\<open>new URL(s, base)\<close>; \<open>None\<close> when the constructor throws\<close>
  url_pathname :: "'u \<Rightarrow> string"
    \<comment> \<open>the \<^verbatim>\<open>pathname\<close> getter\<close>
  url_toString :: "'u \<Rightarrow> string"
    \<comment> \<open>\<^verbatim>\<open>toString()\<close>, the serialised URL\<close>
  url_error :: "string \<Rightarrow> string"
    \<comment> \<open>the message of the \<^verbatim>\<open>TypeError\<close> that \<^verbatim>\<open>new URL(s)\<close> throws\<close>
  anchor_hrefs :: "string \<Rightarrow> string list"
    \<comment> \<open>\<^verbatim>\<open>parseFromString(html, 'text/html')\<close>, then \<^verbatim>\<open>querySelectorAll('a[href]')\<close>, then
        \<^verbatim>\<open>getAttribute('href')\<close> of each anchor, in document order\<close>

text \<open>The response of \<^verbatim>\<open>fetch\<close>: its \<^verbatim>\<open>ok\<close> flag, its status and what \<^verbatim>\<open>text()\<close> settles to.\<close>

record response =
  resp_ok :: bool
  resp_status :: nat
  resp_text :: "js_thrown + string"

datatype fetch_result = Rejected js_thrown | Resolved response

subsection \<open>String methods\<close>

text \<open>\<^verbatim>\<open>String.prototype.trim\<close>: white space and line terminators below U+0100.\<close>

definition is_js_space :: "char \<Rightarrow> bool" where
  "is_js_space c = ((of_char c :: nat) \<in> {9, 10, 11, 12, 13, 32, 160})"

definition trim :: "string \<Rightarrow> string" where
  "trim s = rev (dropWhile is_js_space (rev (dropWhile is_js_space s)))"

text \<open>\<^verbatim>\<open>String.prototype.toLowerCase\<close> on Latin-1: A to Z, and U+00C0 to U+00DE but U+00D7.\<close>

definition lower_char :: "char \<Rightarrow> char" where
  "lower_char c =
     (let n = (of_char c :: nat)
      in if (65 \<le> n \<and> n \<le> 90) \<or> (192 \<le> n \<and> n \<le> 222 \<and> n \<noteq> 215)
         then char_of (n + 32) else c)"

definition toLowerCase :: "string \<Rightarrow> string" where
  "toLowerCase s = map lower_char s"

text \<open>\<^verbatim>\<open>String.prototype.endsWith\<close>.\<close>

definition endsWith :: "string \<Rightarrow> string \<Rightarrow> bool" where
  "endsWith s suf = (length suf \<le> length s \<and> drop (length s - length suf) s = suf)"

text \<open>A number in a template literal: its decimal digits.\<close>

fun show_nat :: "nat \<Rightarrow> string" where
  "show_nat n =
     (if n < 10 then [char_of (48 + n)]
      else show_nat (n div 10) @ [char_of (48 + n mod 10)])"

declare show_nat.simps [simp del]

section \<open>The URL normaliser\<close>

text \<open>
  \<^verbatim>\<open>ensureAbsoluteUrl\<close> (lines 6 to 20). \<^verbatim>\<open>null\<close> is \<open>None\<close>; the empty string is the
  only falsy string.
\<close>

definition ensureAbsoluteUrl :: "'u platform \<Rightarrow> string \<Rightarrow> string option" where
  "ensureAbsoluteUrl P rawUrl =
     (if rawUrl = [] then None
      else case url_parse P rawUrl of
             Some u \<Rightarrow> Some (url_toString P u)
           | None \<Rightarrow>
               (case url_parse P (''https://'' @ rawUrl) of
                  Some u \<Rightarrow> Some (url_toString P u)
                | None \<Rightarrow> None))"

section \<open>The link extractor\<close>

definition IMAGE_SUFFIXES :: "string list" where
  "IMAGE_SUFFIXES = [''png'', ''jpg'', ''jpeg'']"

text \<open>\<^verbatim>\<open>.filter(Boolean)\<close> on the array of URL objects and \<^verbatim>\<open>null\<close>s.\<close>

fun filter_Boolean :: "'a option list \<Rightarrow> 'a list" where
  "filter_Boolean [] = []"
| "filter_Boolean (None # xs) = filter_Boolean xs"
| "filter_Boolean (Some x # xs) = x # filter_Boolean xs"

text \<open>The predicate of the second \<^verbatim>\<open>filter\<close> (lines 37 to 40).\<close>

definition has_image_suffix :: "'u platform \<Rightarrow> 'u \<Rightarrow> bool" where
  "has_image_suffix P url =
     (let pathname = toLowerCase (url_pathname P url)
      in list_ex (\<lambda>suffix. endsWith pathname (''.'' @ suffix)) IMAGE_SUFFIXES)"

text \<open>The chain that computes \<^verbatim>\<open>resolvedUrls\<close> (lines 28 to 41).\<close>

definition resolvedUrls :: "'u platform \<Rightarrow> string list \<Rightarrow> 'u \<Rightarrow> string list" where
  "resolvedUrls P anchors base =
     map (url_toString P)
       (filter (has_image_suffix P)
         (filter_Boolean (map (\<lambda>href. url_resolve P href base) anchors)))"

text \<open>
  \<^verbatim>\<open>Array.from(new Set(xs))\<close>: a \<^verbatim>\<open>Set\<close> keeps its elements in insertion order, adding
  an element that is already there changes nothing, and the constructor adds the
  elements of \<open>xs\<close> from left to right.
\<close>

definition set_add :: "'a list \<Rightarrow> 'a \<Rightarrow> 'a list" where
  "set_add s x = (if x \<in> set s then s else s @ [x])"

definition Array_from_Set :: "'a list \<Rightarrow> 'a list" where
  "Array_from_Set xs = foldl set_add [] xs"

text \<open>
  \<^verbatim>\<open>extractImageLinks\<close> (lines 22 to 44). \<^verbatim>\<open>new URL(baseUrl)\<close> on line 26 stands outside
  every \<^verbatim>\<open>try\<close>, so its exception leaves the function: the result is a sum.
\<close>

definition extractImageLinks :: "'u platform \<Rightarrow> string \<Rightarrow> string \<Rightarrow> js_thrown + string list" where
  "extractImageLinks P htmlText baseUrl =
     (let anchors = anchor_hrefs P htmlText
      in case url_parse P baseUrl of
           None \<Rightarrow> Inl (ErrorObj (url_error P baseUrl))
         | Some base \<Rightarrow> Inr (Array_from_Set (resolvedUrls P anchors base)))"

section \<open>The component state and its handlers\<close>

record app_state =
  urlInput :: string
  imageUrls :: "string list"
  selectedIndex :: int
  loading :: bool
  error :: string

definition initial_state :: app_state where
  "initial_state =
     \<lparr>urlInput = [], imageUrls = [], selectedIndex = 0, loading = False, error = []\<rparr>"

text \<open>\<^verbatim>\<open>handlePrev\<close> and \<^verbatim>\<open>handleNext\<close> (lines 58 to 66), \<^verbatim>\<open>handleKeyDown\<close> (lines 69 to 81).\<close>

definition handlePrev :: "app_state \<Rightarrow> app_state" where
  "handlePrev s =
     s\<lparr>selectedIndex := (if selectedIndex s > 0 then selectedIndex s - 1 else selectedIndex s)\<rparr>"

definition handleNext :: "app_state \<Rightarrow> app_state" where
  "handleNext s =
     s\<lparr>selectedIndex :=
         (if selectedIndex s < int (length (imageUrls s)) - 1
          then selectedIndex s + 1 else selectedIndex s)\<rparr>"

definition handleKeyDown :: "string \<Rightarrow> app_state \<Rightarrow> app_state" where
  "handleKeyDown key s =
     (if imageUrls s = [] then s
      else if key = ''ArrowUp'' then handlePrev s
      else if key = ''ArrowDown'' then handleNext s
      else s)"

text \<open>
  \<^verbatim>\<open>handleSubmit\<close> (lines 87 to 125) is asynchronous. Its first part runs to the call of
  \<^verbatim>\<open>fetch\<close> and returns the new state with the URL it fetches, or \<open>None\<close> when it returns
  before any fetch. Its second part resumes with what the network settled to.
\<close>

definition validation_message :: string where
  "validation_message = ''Enter a valid URL (include protocol or a valid domain).''"

definition fallback_message :: string where
  "fallback_message = ''Unable to fetch the provided URL.''"

definition no_links_message :: string where
  "no_links_message = ''No image links found on this page.''"

text \<open>The branch of an input that is not a URL (lines 91 to 96).\<close>

definition invalid_submission :: "app_state \<Rightarrow> app_state" where
  "invalid_submission s = s\<lparr>error := validation_message, imageUrls := [], selectedIndex := 0\<rparr>"

definition handleSubmit_start :: "'u platform \<Rightarrow> app_state \<Rightarrow> app_state \<times> string option" where
  "handleSubmit_start P s =
     (case ensureAbsoluteUrl P (trim (urlInput s)) of
        None \<Rightarrow> (invalid_submission s, None)
      | Some normalizedUrl \<Rightarrow>
          if normalizedUrl = [] then (invalid_submission s, None)
          else (s\<lparr>loading := True, error := [], imageUrls := [], selectedIndex := 0\<rparr>,
                Some normalizedUrl))"

text \<open>The body of the \<^verbatim>\<open>try\<close> block (lines 104 to 115): \<open>Inl\<close> is the value thrown.\<close>

definition try_block :: "'u platform \<Rightarrow> string \<Rightarrow> fetch_result \<Rightarrow> app_state \<Rightarrow> js_thrown + app_state" where
  "try_block P normalizedUrl r s =
     (case r of
        Rejected e \<Rightarrow> Inl e
      | Resolved resp \<Rightarrow>
          if \<not> resp_ok resp
          then Inl (ErrorObj (''Request failed with status '' @ show_nat (resp_status resp)))
          else case resp_text resp of
                 Inl e \<Rightarrow> Inl e
               | Inr htmlText \<Rightarrow>
                   (case extractImageLinks P htmlText normalizedUrl of
                      Inl e \<Rightarrow> Inl e
                    | Inr links \<Rightarrow>
                        Inr (if links = []
                             then (s\<lparr>imageUrls := links, error := no_links_message\<rparr>)
                             else (s\<lparr>imageUrls := links\<rparr>))))"

definition handleSubmit_resume :: "'u platform \<Rightarrow> string \<Rightarrow> fetch_result \<Rightarrow> app_state \<Rightarrow> app_state" where
  "handleSubmit_resume P normalizedUrl r s =
     (let s' = (case try_block P normalizedUrl r s of
                  Inr t \<Rightarrow> t
                | Inl fetchError \<Rightarrow>
                    s\<lparr>error := (case fetchError of
                                  ErrorObj message \<Rightarrow> message
                                | NonError \<Rightarrow> fallback_message)\<rparr>)
      in s'\<lparr>loading := False\<rparr>)"

text \<open>One whole submission, with the network given as a function of the fetched URL.\<close>

definition handleSubmit :: "'u platform \<Rightarrow> (string \<Rightarrow> fetch_result) \<Rightarrow> app_state \<Rightarrow> app_state" where
  "handleSubmit P net s =
     (case handleSubmit_start P s of
        (s', None) \<Rightarrow> s'
      | (s', Some normalizedUrl) \<Rightarrow> handleSubmit_resume P normalizedUrl (net normalizedUrl) s')"

text \<open>The status area (lines 144 to 155): at most one of its three spans is rendered.\<close>

datatype status_line = Fetching | ErrorMessage string | Found nat

definition status_area :: "app_state \<Rightarrow> status_line option" where
  "status_area s =
     (if loading s then Some Fetching
      else if error s \<noteq> [] then Some (ErrorMessage (error s))
      else if length (imageUrls s) > 0 then Some (Found (length (imageUrls s)))
      else None)"

section \<open>The user interface as a machine of events\<close>

text \<open>
  Between the call of \<^verbatim>\<open>fetch\<close> and the moment it settles the page stays live, so other
  handlers can run. A world is the component state with the URL of the fetch in flight,
  if any. An event is enabled as the rendered page allows it: the text field and the
  submit button are disabled while \<open>loading\<close> (lines 138 and 140), and a list item exists
  for the indices of \<open>imageUrls\<close> only (line 161). The navigation buttons exist only
  while an image is shown; the model lets their handlers run in every state, which can
  only add behaviours. The response body is read by a second \<^verbatim>\<open>await\<close>; no state changes
  between the two, so one event delivers the whole outcome of the network.
\<close>

datatype event =
    ChangeInput string
  | Submit
  | FetchSettled fetch_result
  | ClickItem nat
  | ClickPrev
  | ClickNext
  | KeyDown string

type_synonym world = "app_state \<times> string option"

fun step :: "'u platform \<Rightarrow> event \<Rightarrow> world \<Rightarrow> world option" where
  "step P (ChangeInput t) (s, pend) =
     (if loading s then None else Some (s\<lparr>urlInput := t\<rparr>, pend))"
| "step P Submit (s, pend) =
     (if loading s then None
      else case handleSubmit_start P s of
             (s', None) \<Rightarrow> Some (s', pend)
           | (s', Some normalizedUrl) \<Rightarrow> Some (s', Some normalizedUrl))"
| "step P (FetchSettled r) (s, pend) =
     (case pend of
        None \<Rightarrow> None
      | Some normalizedUrl \<Rightarrow> Some (handleSubmit_resume P normalizedUrl r s, None))"
| "step P (ClickItem i) (s, pend) =
     (if i < length (imageUrls s) then Some (s\<lparr>selectedIndex := int i\<rparr>, pend) else None)"
| "step P ClickPrev (s, pend) = Some (handlePrev s, pend)"
| "step P ClickNext (s, pend) = Some (handleNext s, pend)"
| "step P (KeyDown key) (s, pend) = Some (handleKeyDown key s, pend)"

fun run :: "'u platform \<Rightarrow> event list \<Rightarrow> world \<Rightarrow> world option" where
  "run P [] w = Some w"
| "run P (e # es) w = (case step P e w of None \<Rightarrow> None | Some w' \<Rightarrow> run P es w')"

definition initial_world :: world where
  "initial_world = (initial_state, None)"

text \<open>The invariant of the machine that the selection index rests on.\<close>

definition world_inv :: "world \<Rightarrow> bool" where
  "world_inv w =
     (let s = fst w
      in 0 \<le> selectedIndex s
         \<and> (if imageUrls s = [] then selectedIndex s = 0
            else selectedIndex s < int (length (imageUrls s)))
         \<and> (if loading s then imageUrls s = [] else snd w = None))"

section \<open>What the specification says of deduplication\<close>

text \<open>
  The specification's words, "deduplicate by exact resolved string value, preserving
  first-occurrence order", written as a function of their own: keep the head, drop every
  later copy of it, go on.
\<close>

fun first_occurrences :: "'a list \<Rightarrow> 'a list" where
  "first_occurrences [] = []"
| "first_occurrences (x # xs) = x # first_occurrences (removeAll x xs)"

section \<open>A reference platform\<close>

text \<open>
  A small instance of the platform, to run the model on concrete inputs. Its URLs are
  \<^verbatim>\<open>http\<close> and \<^verbatim>\<open>https\<close> URLs with a non-empty host; it does no normalisation of
  letter case, dot segments or percent-encoding, and it resolves a reference without a
  scheme against the base as a path-absolute reference, a query or fragment, or a
  path-relative one. On the inputs used below it agrees with the URL Standard.
\<close>

record ref_url =
  origin :: string
  path :: string
  rest :: string

definition host_char :: "char \<Rightarrow> bool" where
  "host_char c = (c \<noteq> CHR ''/'' \<and> c \<noteq> CHR ''?'' \<and> c \<noteq> CHR ''#'' \<and> \<not> is_js_space c)"

definition path_char :: "char \<Rightarrow> bool" where
  "path_char c = (c \<noteq> CHR ''?'' \<and> c \<noteq> CHR ''#'')"

definition ref_scheme :: "string \<Rightarrow> string option" where
  "ref_scheme s =
     (if take 8 s = ''https://'' then Some ''https://''
      else if take 7 s = ''http://'' then Some ''http://''
      else None)"

definition ref_parse :: "string \<Rightarrow> ref_url option" where
  "ref_parse s =
     (case ref_scheme s of
        None \<Rightarrow> None
      | Some sch \<Rightarrow>
          (let r = drop (length sch) s;
               host = takeWhile host_char r;
               tail = dropWhile host_char r;
               p = takeWhile path_char tail
           in if host = [] \<or> (tail \<noteq> [] \<and> is_js_space (hd tail)) then None
              else Some \<lparr>origin = sch @ host,
                         path = (if p = [] then ''/'' else p),
                         rest = dropWhile path_char tail\<rparr>))"

definition ref_toString :: "ref_url \<Rightarrow> string" where
  "ref_toString u = origin u @ path u @ rest u"

definition dirname :: "string \<Rightarrow> string" where
  "dirname p = rev (dropWhile (\<lambda>c. c \<noteq> CHR ''/'') (rev p))"

definition ref_resolve :: "string \<Rightarrow> ref_url \<Rightarrow> ref_url option" where
  "ref_resolve href base =
     (if ref_scheme href \<noteq> None then ref_parse href
      else if href = [] then Some base
      else if hd href = CHR ''/'' then ref_parse (origin base @ href)
      else if \<not> path_char (hd href) then ref_parse (origin base @ path base @ href)
      else ref_parse (origin base @ dirname (path base) @ href))"

text \<open>Anchors of the shape \<^verbatim>\<open><a href="..."\<close>, scanned from left to right.\<close>

definition anchor_open :: string where
  "anchor_open = ''<a href='' @ [CHR 0x22]"

fun scan_hrefs :: "string \<Rightarrow> string list" where
  "scan_hrefs [] = []"
| "scan_hrefs (c # cs) =
     (if take (length anchor_open) (c # cs) = anchor_open
      then takeWhile (\<lambda>d. d \<noteq> CHR 0x22) (drop (length anchor_open) (c # cs)) # scan_hrefs cs
      else scan_hrefs cs)"

definition ref_platform :: "ref_url platform" where
  "ref_platform =
     \<lparr>url_parse = ref_parse,
      url_resolve = ref_resolve,
      url_pathname = path,
      url_toString = ref_toString,
      url_error = (\<lambda>s. ''Invalid URL''),
      anchor_hrefs = scan_hrefs\<rparr>"

definition anchor_tag :: "string \<Rightarrow> string" where
  "anchor_tag href = anchor_open @ href @ [CHR 0x22] @ ''>link</a>''"

section \<open>Statements about the platform\<close>

text \<open>
  What the platform does with one reference: \<^verbatim>\<open>new URL(href, base)\<close> succeeds, and the URL
  it builds has the given \<^verbatim>\<open>pathname\<close> and serialises to the given string.
\<close>

definition resolves_to :: "'u platform \<Rightarrow> string \<Rightarrow> 'u \<Rightarrow> string \<Rightarrow> string \<Rightarrow> bool" where
  "resolves_to P href base pathname serialised =
     (case url_resolve P href base of
        None \<Rightarrow> False
      | Some u \<Rightarrow> url_pathname P u = pathname \<and> url_toString P u = serialised)"

text \<open>
  A session on the reference platform: the user types a bare domain, submits, the page
  arrives with two image links, and ArrowDown is pressed twice.
\<close>

definition browse_run :: "event list" where
  "browse_run =
     [ChangeInput ''site.test/page'',
      Submit,
      FetchSettled (Resolved \<lparr>resp_ok = True, resp_status = 200,
        resp_text = Inr (concat (map anchor_tag [''a.png'', ''/b.JPG'']))\<rparr>),
      KeyDown ''ArrowDown'',
      KeyDown ''ArrowDown'']"

section \<open>Evaluation of the reference platform\<close>

lemmas ref_url_simps =
  ref_platform_def ref_parse_def ref_scheme_def ref_resolve_def ref_toString_def
  host_char_def path_char_def is_js_space_def dirname_def

lemmas suffix_simps =
  has_image_suffix_def IMAGE_SUFFIXES_def toLowerCase_def lower_char_def endsWith_def
  char_of_eq_iff

lemmas scan_simps = anchor_tag_def anchor_open_def

lemma ref_base:
  "url_parse ref_platform ''https://site.test/page'' =
     Some \<lparr>origin = ''https://site.test'', path = ''/page'', rest = ''''\<rparr>"
  by (simp add: ref_url_simps)

section \<open>The two ways the submit handler starts\<close>

lemma handleSubmit_start_cases:
  "handleSubmit_start P s = (invalid_submission s, None)
   \<or> (\<exists>normalizedUrl. handleSubmit_start P s =
         (s\<lparr>loading := True, error := [], imageUrls := [], selectedIndex := 0\<rparr>, Some normalizedUrl))"
  by (simp add: handleSubmit_start_def split: option.splits)

section \<open>The normaliser\<close>

text \<open>
  Claim C4. For every non-empty input string that parses directly as an absolute URL,
  \<^verbatim>\<open>ensureAbsoluteUrl\<close> succeeds and returns the serialisation of that URL.
\<close>

theorem ensureAbsoluteUrl_direct:
  assumes "rawUrl \<noteq> []" and "url_parse P rawUrl = Some u"
  shows "ensureAbsoluteUrl P rawUrl = Some (url_toString P u)"
  using assms by (simp add: ensureAbsoluteUrl_def)

theorem ensureAbsoluteUrl_direct_witness:
  "''http://a/b/c?d'' \<noteq> [] \<and>
   url_parse ref_platform ''http://a/b/c?d'' =
     Some \<lparr>origin = ''http://a'', path = ''/b/c'', rest = ''?d''\<rparr> \<and>
   ensureAbsoluteUrl ref_platform ''http://a/b/c?d'' =
     Some (url_toString ref_platform \<lparr>origin = ''http://a'', path = ''/b/c'', rest = ''?d''\<rparr>) \<and>
   url_toString ref_platform \<lparr>origin = ''http://a'', path = ''/b/c'', rest = ''?d''\<rparr> =
     ''http://a/b/c?d''"
proof -
  have h1: "''http://a/b/c?d'' \<noteq> []" by simp
  have h2: "url_parse ref_platform ''http://a/b/c?d'' =
      Some \<lparr>origin = ''http://a'', path = ''/b/c'', rest = ''?d''\<rparr>"
    by (simp add: ref_url_simps)
  have h3: "url_toString ref_platform \<lparr>origin = ''http://a'', path = ''/b/c'', rest = ''?d''\<rparr> =
     ''http://a/b/c?d''"
    by (simp add: ref_url_simps)
  from h1 h2 h3 ensureAbsoluteUrl_direct [OF h1 h2] show ?thesis by blast
qed

text \<open>
  Claim C5. For every input string that does not parse directly but parses once
  \<^verbatim>\<open>https://\<close> is put before it, \<^verbatim>\<open>ensureAbsoluteUrl\<close> succeeds and returns the
  serialisation of the prefixed URL. The empty input is returned as \<^verbatim>\<open>null\<close> before any
  parse; it is no exception to the claim because the platform rejects \<^verbatim>\<open>https://\<close>, a
  special scheme with an empty host, which is the first hypothesis.
\<close>

theorem ensureAbsoluteUrl_prefixed:
  assumes empty_host: "url_parse P ''https://'' = None"
    and direct: "url_parse P rawUrl = None"
    and prefixed: "url_parse P (''https://'' @ rawUrl) = Some u"
  shows "ensureAbsoluteUrl P rawUrl = Some (url_toString P u)"
proof -
  have "rawUrl \<noteq> []"
  proof
    assume "rawUrl = []"
    with prefixed have "url_parse P ''https://'' = Some u" by simp
    with empty_host show False by simp
  qed
  with direct prefixed show ?thesis by (simp add: ensureAbsoluteUrl_def)
qed

theorem ensureAbsoluteUrl_prefixed_witness:
  "url_parse ref_platform ''https://'' = None \<and>
   url_parse ref_platform ''site.test'' = None \<and>
   url_parse ref_platform (''https://'' @ ''site.test'') =
     Some \<lparr>origin = ''https://site.test'', path = ''/'', rest = ''''\<rparr> \<and>
   ensureAbsoluteUrl ref_platform ''site.test'' =
     Some (url_toString ref_platform \<lparr>origin = ''https://site.test'', path = ''/'', rest = ''''\<rparr>) \<and>
   url_toString ref_platform \<lparr>origin = ''https://site.test'', path = ''/'', rest = ''''\<rparr> =
     ''https://site.test/''"
proof -
  have h1: "url_parse ref_platform ''https://'' = None" by (simp add: ref_url_simps)
  have h2: "url_parse ref_platform ''site.test'' = None" by (simp add: ref_url_simps)
  have h3: "url_parse ref_platform (''https://'' @ ''site.test'') =
     Some \<lparr>origin = ''https://site.test'', path = ''/'', rest = ''''\<rparr>"
    by (simp add: ref_url_simps)
  have h4: "url_toString ref_platform \<lparr>origin = ''https://site.test'', path = ''/'', rest = ''''\<rparr> =
     ''https://site.test/''"
    by (simp add: ref_url_simps)
  from h1 h2 h3 h4 ensureAbsoluteUrl_prefixed [OF h1 h2 h3] show ?thesis by blast
qed

text \<open>
  Claim C6. \<^verbatim>\<open>ensureAbsoluteUrl\<close> returns \<^verbatim>\<open>null\<close> exactly when the input is empty or
  parses neither directly nor with \<^verbatim>\<open>https://\<close> before it. On that result, for the
  trimmed text of the input field, the submit handler stores the validation message,
  which the status area then shows, empties the image list, and returns before any
  fetch: its first part hands back no URL, the whole submission does not depend on the
  network, and the machine has no fetch in flight afterwards.
\<close>

theorem invalid_url_failure:
  "(ensureAbsoluteUrl P rawUrl = None \<longleftrightarrow>
      rawUrl = [] \<or> (url_parse P rawUrl = None \<and> url_parse P (''https://'' @ rawUrl) = None))
   \<and> (ensureAbsoluteUrl P (trim (urlInput s)) = None \<and> \<not> loading s \<longrightarrow>
        handleSubmit_start P s = (invalid_submission s, None)
        \<and> handleSubmit P net s = invalid_submission s
        \<and> step P Submit (s, None) = Some (invalid_submission s, None)
        \<and> imageUrls (invalid_submission s) = []
        \<and> status_area (invalid_submission s) = Some (ErrorMessage validation_message))"
proof -
  have iff: "ensureAbsoluteUrl P rawUrl = None \<longleftrightarrow>
      rawUrl = [] \<or> (url_parse P rawUrl = None \<and> url_parse P (''https://'' @ rawUrl) = None)"
    by (simp add: ensureAbsoluteUrl_def split: option.splits)
  have handler: "handleSubmit_start P s = (invalid_submission s, None)
        \<and> handleSubmit P net s = invalid_submission s
        \<and> step P Submit (s, None) = Some (invalid_submission s, None)
        \<and> imageUrls (invalid_submission s) = []
        \<and> status_area (invalid_submission s) = Some (ErrorMessage validation_message)"
    if "ensureAbsoluteUrl P (trim (urlInput s)) = None" and "\<not> loading s"
    using that
    by (simp add: handleSubmit_start_def handleSubmit_def invalid_submission_def
        status_area_def validation_message_def)
  from iff handler show ?thesis by blast
qed

theorem invalid_url_failure_witness:
  "url_parse ref_platform ''site test'' = None \<and>
   url_parse ref_platform (''https://'' @ ''site test'') = None \<and>
   ensureAbsoluteUrl ref_platform ''site test'' = None \<and>
   trim (urlInput (initial_state\<lparr>urlInput := '' site test  ''\<rparr>)) = ''site test'' \<and>
   \<not> loading (initial_state\<lparr>urlInput := '' site test  ''\<rparr>) \<and>
   handleSubmit ref_platform (\<lambda>url. Rejected NonError) (initial_state\<lparr>urlInput := '' site test  ''\<rparr>) =
     invalid_submission (initial_state\<lparr>urlInput := '' site test  ''\<rparr>) \<and>
   status_area (invalid_submission (initial_state\<lparr>urlInput := '' site test  ''\<rparr>)) =
     Some (ErrorMessage validation_message)"
proof -
  let ?s = "initial_state\<lparr>urlInput := '' site test  ''\<rparr>"
  let ?net = "\<lambda>url::string. Rejected NonError"
  note inst = invalid_url_failure [of ref_platform "''site test''" ?s ?net]
  have p1: "url_parse ref_platform ''site test'' = None"
    by (simp add: ref_url_simps)
  have p2: "url_parse ref_platform (''https://'' @ ''site test'') = None"
    by (simp add: ref_url_simps)
  have fails: "ensureAbsoluteUrl ref_platform ''site test'' = None"
    using inst [THEN conjunct1] p1 p2 by blast
  have trimmed: "trim (urlInput ?s) = ''site test''"
    by (simp add: trim_def is_js_space_def initial_state_def)
  have idle: "\<not> loading ?s"
    by (simp add: initial_state_def)
  have "ensureAbsoluteUrl ref_platform (trim (urlInput ?s)) = None \<and> \<not> loading ?s"
    using fails trimmed idle by simp
  from inst [THEN conjunct2, THEN mp, OF this] p1 p2 fails trimmed idle
  show ?thesis by blast
qed

section \<open>Navigation\<close>

text \<open>
  Claim C8. With the selection index at 0, a step to the previous image, by the
  ArrowUp key or by the handler of the previous button, leaves the state as it is; with
  the selection index at the last index of the list, a step to the next image leaves
  the state as it is. There is no wraparound and nothing is raised.
\<close>

theorem navigation_clamped:
  "(selectedIndex s = 0 \<longrightarrow>
      handlePrev s = s \<and> handleKeyDown ''ArrowUp'' s = s
      \<and> step P ClickPrev (s, pend) = Some (s, pend)
      \<and> step P (KeyDown ''ArrowUp'') (s, pend) = Some (s, pend))
   \<and> (selectedIndex s = int (length (imageUrls s)) - 1 \<longrightarrow>
      handleNext s = s \<and> handleKeyDown ''ArrowDown'' s = s
      \<and> step P ClickNext (s, pend) = Some (s, pend)
      \<and> step P (KeyDown ''ArrowDown'') (s, pend) = Some (s, pend))"
  by (simp add: handlePrev_def handleNext_def handleKeyDown_def)

theorem navigation_clamped_witness:
  "selectedIndex (initial_state\<lparr>imageUrls := [''u'', ''v''], selectedIndex := 0\<rparr>) = 0 \<and>
   handleKeyDown ''ArrowUp'' (initial_state\<lparr>imageUrls := [''u'', ''v''], selectedIndex := 0\<rparr>) =
     initial_state\<lparr>imageUrls := [''u'', ''v''], selectedIndex := 0\<rparr> \<and>
   selectedIndex (initial_state\<lparr>imageUrls := [''u'', ''v''], selectedIndex := 1\<rparr>) =
     int (length (imageUrls (initial_state\<lparr>imageUrls := [''u'', ''v''], selectedIndex := 1\<rparr>))) - 1 \<and>
   handleKeyDown ''ArrowDown'' (initial_state\<lparr>imageUrls := [''u'', ''v''], selectedIndex := 1\<rparr>) =
     initial_state\<lparr>imageUrls := [''u'', ''v''], selectedIndex := 1\<rparr>"
proof -
  let ?first = "initial_state\<lparr>imageUrls := [''u'', ''v''], selectedIndex := 0\<rparr>"
  let ?last = "initial_state\<lparr>imageUrls := [''u'', ''v''], selectedIndex := 1\<rparr>"
  have at_first: "selectedIndex ?first = 0" by simp
  have at_last: "selectedIndex ?last = int (length (imageUrls ?last)) - 1" by simp
  from navigation_clamped [of ?first ref_platform None, THEN conjunct1, THEN mp, OF at_first]
    navigation_clamped [of ?last ref_platform None, THEN conjunct2, THEN mp, OF at_last]
    at_first at_last
  show ?thesis by blast
qed

section \<open>Failures of the fetch\<close>

text \<open>
  Claim C2, as stated, fails. When \<^verbatim>\<open>fetch\<close> rejects with an instance of \<^verbatim>\<open>Error\<close>, as
  browsers do on a network failure (a \<^verbatim>\<open>TypeError\<close> with a message of the browser's
  own), the handler shows that message and not the fallback.
\<close>

theorem fetch_rejection_counterexample:
  "handleSubmit ref_platform (\<lambda>url. Rejected (ErrorObj ''Failed to fetch''))
     (initial_state\<lparr>urlInput := ''https://site.test/page''\<rparr>) =
   \<lparr>urlInput = ''https://site.test/page'', imageUrls = [], selectedIndex = 0,
    loading = False, error = ''Failed to fetch''\<rparr>
   \<and> status_area (handleSubmit ref_platform (\<lambda>url. Rejected (ErrorObj ''Failed to fetch''))
        (initial_state\<lparr>urlInput := ''https://site.test/page''\<rparr>)) =
       Some (ErrorMessage ''Failed to fetch'')
   \<and> ''Failed to fetch'' \<noteq> fallback_message"
  by (simp add: handleSubmit_def handleSubmit_start_def handleSubmit_resume_def try_block_def
      ensureAbsoluteUrl_def trim_def initial_state_def status_area_def fallback_message_def
      ref_url_simps)

text \<open>
  Claim C2, amended. When the fetch of the normalised URL rejects, the rejection is
  caught: the submission ends with \<open>loading\<close> cleared and with the error message set to
  the message of the rejection value when that value is an instance of \<^verbatim>\<open>Error\<close>, and to
  the fallback "Unable to fetch the provided URL." when it is not. The status area shows
  that message (and nothing for an \<^verbatim>\<open>Error\<close> whose message is empty).
\<close>

theorem fetch_rejection_message:
  assumes "handleSubmit_start P s = (s', Some normalizedUrl)"
    and "net normalizedUrl = Rejected e"
  shows "handleSubmit P net s =
           s'\<lparr>error := (case e of ErrorObj message \<Rightarrow> message | NonError \<Rightarrow> fallback_message),
              loading := False\<rparr>
         \<and> handleSubmit_resume P normalizedUrl (Rejected e) s' = handleSubmit P net s
         \<and> status_area (handleSubmit P net s) =
             (case e of
                ErrorObj message \<Rightarrow> if message = [] then None else Some (ErrorMessage message)
              | NonError \<Rightarrow> Some (ErrorMessage fallback_message))"
proof -
  from assms(1) handleSubmit_start_cases [of P s]
  have s': "s' = s\<lparr>loading := True, error := [], imageUrls := [], selectedIndex := 0\<rparr>"
    by auto
  have resumed: "handleSubmit_resume P normalizedUrl (Rejected e) s' =
      s'\<lparr>error := (case e of ErrorObj message \<Rightarrow> message | NonError \<Rightarrow> fallback_message),
         loading := False\<rparr>"
    by (simp add: handleSubmit_resume_def try_block_def)
  have whole: "handleSubmit P net s = handleSubmit_resume P normalizedUrl (Rejected e) s'"
    using assms by (simp add: handleSubmit_def)
  have "status_area
      (s'\<lparr>error := (case e of ErrorObj message \<Rightarrow> message | NonError \<Rightarrow> fallback_message),
         loading := False\<rparr>) =
      (case e of
         ErrorObj message \<Rightarrow> if message = [] then None else Some (ErrorMessage message)
       | NonError \<Rightarrow> Some (ErrorMessage fallback_message))"
    unfolding s' by (cases e) (simp_all add: status_area_def fallback_message_def)
  with whole resumed have shown: "status_area (handleSubmit P net s) =
      (case e of
         ErrorObj message \<Rightarrow> if message = [] then None else Some (ErrorMessage message)
       | NonError \<Rightarrow> Some (ErrorMessage fallback_message))"
    by simp
  from resumed whole shown show ?thesis by simp
qed

theorem fetch_rejection_message_witness:
  "handleSubmit_start ref_platform (initial_state\<lparr>urlInput := ''site.test''\<rparr>) =
     (\<lparr>urlInput = ''site.test'', imageUrls = [], selectedIndex = 0, loading = True, error = []\<rparr>,
      Some ''https://site.test/'')
   \<and> (\<lambda>url::string. Rejected NonError) ''https://site.test/'' = Rejected NonError
   \<and> handleSubmit ref_platform (\<lambda>url. Rejected NonError) (initial_state\<lparr>urlInput := ''site.test''\<rparr>) =
       \<lparr>urlInput = ''site.test'', imageUrls = [], selectedIndex = 0, loading = False,
        error = ''Unable to fetch the provided URL.''\<rparr>
   \<and> status_area (handleSubmit ref_platform (\<lambda>url. Rejected NonError)
         (initial_state\<lparr>urlInput := ''site.test''\<rparr>)) =
       Some (ErrorMessage ''Unable to fetch the provided URL.'')"
proof -
  let ?s = "initial_state\<lparr>urlInput := ''site.test''\<rparr>"
  let ?s' = "\<lparr>urlInput = ''site.test'', imageUrls = [], selectedIndex = 0, loading = True, error = []\<rparr>"
  let ?net = "\<lambda>url::string. Rejected NonError"
  have started: "handleSubmit_start ref_platform ?s = (?s', Some ''https://site.test/'')"
    by (simp add: handleSubmit_start_def ensureAbsoluteUrl_def trim_def initial_state_def
        ref_url_simps)
  have rejected: "?net ''https://site.test/'' = Rejected NonError" by simp
  from fetch_rejection_message [OF started rejected] started
  show ?thesis by (simp add: fallback_message_def status_area_def)
qed

section \<open>Deduplication\<close>

text \<open>The \<^verbatim>\<open>Set\<close> built from a list, element by element.\<close>

lemma Array_from_Set_snoc:
  "Array_from_Set (xs @ [x]) = set_add (Array_from_Set xs) x"
  by (simp add: Array_from_Set_def)

lemma set_Array_from_Set: "set (Array_from_Set xs) = set xs"
  by (induction xs rule: rev_induct)
     (auto simp: Array_from_Set_snoc set_add_def, simp add: Array_from_Set_def)

lemma distinct_Array_from_Set: "distinct (Array_from_Set xs)"
proof (induction xs rule: rev_induct)
  case Nil
  show ?case by (simp add: Array_from_Set_def)
next
  case (snoc x xs)
  then show ?case by (simp add: Array_from_Set_snoc set_add_def)
qed

lemma foldl_set_add_first_occurrences:
  "foldl set_add acc xs = acc @ first_occurrences (filter (\<lambda>x. x \<notin> set acc) xs)"
proof (induction xs arbitrary: acc)
  case Nil
  show ?case by simp
next
  case (Cons x xs)
  show ?case
  proof (cases "x \<in> set acc")
    case True
    then have "set_add acc x = acc" by (simp add: set_add_def)
    with True show ?thesis by (simp add: Cons.IH)
  next
    case False
    then have "set_add acc x = acc @ [x]" by (simp add: set_add_def)
    moreover have "removeAll x (filter (\<lambda>y. y \<notin> set acc) xs) =
        filter (\<lambda>y. y \<notin> set (acc @ [x])) xs"
      by (induction xs) auto
    ultimately show ?thesis using False by (simp add: Cons.IH)
  qed
qed

lemma Array_from_Set_first_occurrences: "Array_from_Set xs = first_occurrences xs"
  by (simp add: Array_from_Set_def foldl_set_add_first_occurrences)

lemma Array_from_Set_order:
  assumes "i < j" and "j < length (Array_from_Set xs)"
  shows "\<exists>pre post. xs = pre @ Array_from_Set xs ! i # post
           \<and> Array_from_Set xs ! i \<notin> set pre \<and> Array_from_Set xs ! j \<notin> set pre"
  using assms
proof (induction xs rule: rev_induct)
  case Nil
  then show ?case by (simp add: Array_from_Set_def)
next
  case (snoc x xs)
  let ?r = "Array_from_Set xs"
  show ?case
  proof (cases "j < length ?r")
    case True
    with snoc.prems have i: "i < length ?r" by simp
    from snoc.IH [OF snoc.prems(1) True] obtain pre post
      where "xs = pre @ ?r ! i # post" "?r ! i \<notin> set pre" "?r ! j \<notin> set pre"
      by blast
    moreover have "Array_from_Set (xs @ [x]) ! i = ?r ! i" "Array_from_Set (xs @ [x]) ! j = ?r ! j"
      using True i by (simp_all add: Array_from_Set_snoc set_add_def nth_append)
    ultimately have "xs @ [x] = pre @ Array_from_Set (xs @ [x]) ! i # (post @ [x])
        \<and> Array_from_Set (xs @ [x]) ! i \<notin> set pre \<and> Array_from_Set (xs @ [x]) ! j \<notin> set pre"
      by simp
    then show ?thesis by blast
  next
    case False
    with snoc.prems have fresh: "x \<notin> set ?r" and j: "j = length ?r"
      by (auto simp: Array_from_Set_snoc set_add_def split: if_splits)
    with snoc.prems have i: "i < length ?r" by simp
    have ri: "Array_from_Set (xs @ [x]) ! i = ?r ! i" and rj: "Array_from_Set (xs @ [x]) ! j = x"
      using fresh i j by (simp_all add: Array_from_Set_snoc set_add_def nth_append)
    from i have "?r ! i \<in> set xs"
      using set_Array_from_Set [of xs] nth_mem by blast
    then obtain pre post where split: "xs = pre @ ?r ! i # post" "?r ! i \<notin> set pre"
      by (meson split_list_first)
    from fresh have "x \<notin> set xs" by (simp add: set_Array_from_Set)
    moreover have "set pre \<subseteq> set xs"
      using arg_cong [OF split(1), of set] by auto
    ultimately have "x \<notin> set pre" by blast
    with split ri rj have "xs @ [x] = pre @ Array_from_Set (xs @ [x]) ! i # (post @ [x])
        \<and> Array_from_Set (xs @ [x]) ! i \<notin> set pre \<and> Array_from_Set (xs @ [x]) ! j \<notin> set pre"
      by simp
    then show ?thesis by blast
  qed
qed

lemma count_list_distinct: "distinct xs \<Longrightarrow> x \<in> set xs \<Longrightarrow> count_list xs x = 1"
  by (induction xs) auto

section \<open>The extractor\<close>

lemma set_filter_Boolean: "set (filter_Boolean xs) = {u. Some u \<in> set xs}"
  by (induction xs rule: filter_Boolean.induct) auto

lemma resolves_toD:
  assumes "resolves_to P href base pathname serialised"
  obtains u where "url_resolve P href base = Some u" "url_pathname P u = pathname"
    "url_toString P u = serialised"
  using assms by (auto simp: resolves_to_def split: option.splits)

text \<open>
  Claim C1. For an HTML text whose anchors with an \<^verbatim>\<open>href\<close> are, in document order,
  \<^verbatim>\<open>a.png\<close>, \<^verbatim>\<open>/b.JPG\<close>, \<^verbatim>\<open>https://other.test/c.jpeg?x=1\<close> and \<^verbatim>\<open>d.gif\<close>, and the base URL
  \<^verbatim>\<open>https://site.test/page\<close>, \<^verbatim>\<open>extractImageLinks\<close> returns exactly the three image URLs
  of the claim, in that order: the \<^verbatim>\<open>.gif\<close> link is left out, \<^verbatim>\<open>/b.JPG\<close> passes the
  suffix test on the lower-cased path, and the query string of the third URL is kept.
  What the platform makes of the four references (the resolution rules of the URL
  Standard) is stated by the hypotheses; the filter, the order and the result are the
  application's.
\<close>

theorem extractImageLinks_example:
  assumes anchors: "anchor_hrefs P htmlText =
      [''a.png'', ''/b.JPG'', ''https://other.test/c.jpeg?x=1'', ''d.gif'']"
    and base: "url_parse P ''https://site.test/page'' = Some base"
    and a: "resolves_to P ''a.png'' base ''/a.png'' ''https://site.test/a.png''"
    and b: "resolves_to P ''/b.JPG'' base ''/b.JPG'' ''https://site.test/b.JPG''"
    and c: "resolves_to P ''https://other.test/c.jpeg?x=1'' base ''/c.jpeg''
              ''https://other.test/c.jpeg?x=1''"
    and d: "resolves_to P ''d.gif'' base ''/d.gif'' ''https://site.test/d.gif''"
  shows "extractImageLinks P htmlText ''https://site.test/page'' =
           Inr [''https://site.test/a.png'', ''https://site.test/b.JPG'',
                ''https://other.test/c.jpeg?x=1'']"
proof -
  from a obtain ua where ua: "url_resolve P ''a.png'' base = Some ua"
    "url_pathname P ua = ''/a.png''" "url_toString P ua = ''https://site.test/a.png''"
    by (rule resolves_toD)
  from b obtain ub where ub: "url_resolve P ''/b.JPG'' base = Some ub"
    "url_pathname P ub = ''/b.JPG''" "url_toString P ub = ''https://site.test/b.JPG''"
    by (rule resolves_toD)
  from c obtain uc where uc: "url_resolve P ''https://other.test/c.jpeg?x=1'' base = Some uc"
    "url_pathname P uc = ''/c.jpeg''" "url_toString P uc = ''https://other.test/c.jpeg?x=1''"
    by (rule resolves_toD)
  from d obtain ud where ud: "url_resolve P ''d.gif'' base = Some ud"
    "url_pathname P ud = ''/d.gif''" "url_toString P ud = ''https://site.test/d.gif''"
    by (rule resolves_toD)
  have "has_image_suffix P ua" using ua(2) by (simp add: suffix_simps)
  moreover have "has_image_suffix P ub" using ub(2) by (simp add: suffix_simps)
  moreover have "has_image_suffix P uc" using uc(2) by (simp add: suffix_simps)
  moreover have "\<not> has_image_suffix P ud" using ud(2) by (simp add: suffix_simps)
  ultimately have "resolvedUrls P (anchor_hrefs P htmlText) base =
      [''https://site.test/a.png'', ''https://site.test/b.JPG'', ''https://other.test/c.jpeg?x=1'']"
    using anchors ua ub uc ud by (simp add: resolvedUrls_def)
  then show ?thesis
    using base by (simp add: extractImageLinks_def Array_from_Set_def set_add_def)
qed

theorem extractImageLinks_example_witness:
  "anchor_hrefs ref_platform
     (concat (map anchor_tag [''a.png'', ''/b.JPG'', ''https://other.test/c.jpeg?x=1'', ''d.gif''])) =
     [''a.png'', ''/b.JPG'', ''https://other.test/c.jpeg?x=1'', ''d.gif'']
   \<and> url_parse ref_platform ''https://site.test/page'' =
       Some \<lparr>origin = ''https://site.test'', path = ''/page'', rest = ''''\<rparr>
   \<and> resolves_to ref_platform ''a.png''
       \<lparr>origin = ''https://site.test'', path = ''/page'', rest = ''''\<rparr>
       ''/a.png'' ''https://site.test/a.png''
   \<and> resolves_to ref_platform ''/b.JPG''
       \<lparr>origin = ''https://site.test'', path = ''/page'', rest = ''''\<rparr>
       ''/b.JPG'' ''https://site.test/b.JPG''
   \<and> resolves_to ref_platform ''https://other.test/c.jpeg?x=1''
       \<lparr>origin = ''https://site.test'', path = ''/page'', rest = ''''\<rparr>
       ''/c.jpeg'' ''https://other.test/c.jpeg?x=1''
   \<and> resolves_to ref_platform ''d.gif''
       \<lparr>origin = ''https://site.test'', path = ''/page'', rest = ''''\<rparr>
       ''/d.gif'' ''https://site.test/d.gif''
   \<and> extractImageLinks ref_platform
       (concat (map anchor_tag [''a.png'', ''/b.JPG'', ''https://other.test/c.jpeg?x=1'', ''d.gif'']))
       ''https://site.test/page'' =
       Inr [''https://site.test/a.png'', ''https://site.test/b.JPG'',
            ''https://other.test/c.jpeg?x=1'']"
proof -
  let ?html = "concat (map anchor_tag
      [''a.png'', ''/b.JPG'', ''https://other.test/c.jpeg?x=1'', ''d.gif''])"
  let ?base = "\<lparr>origin = ''https://site.test'', path = ''/page'', rest = ''''\<rparr>"
  have anchors: "anchor_hrefs ref_platform ?html =
      [''a.png'', ''/b.JPG'', ''https://other.test/c.jpeg?x=1'', ''d.gif'']"
    by (simp add: ref_platform_def scan_simps)
  have a: "resolves_to ref_platform ''a.png'' ?base ''/a.png'' ''https://site.test/a.png''"
    by (simp add: resolves_to_def ref_url_simps)
  have b: "resolves_to ref_platform ''/b.JPG'' ?base ''/b.JPG'' ''https://site.test/b.JPG''"
    by (simp add: resolves_to_def ref_url_simps)
  have c: "resolves_to ref_platform ''https://other.test/c.jpeg?x=1'' ?base ''/c.jpeg''
      ''https://other.test/c.jpeg?x=1''"
    by (simp add: resolves_to_def ref_url_simps)
  have d: "resolves_to ref_platform ''d.gif'' ?base ''/d.gif'' ''https://site.test/d.gif''"
    by (simp add: resolves_to_def ref_url_simps)
  from anchors ref_base a b c d extractImageLinks_example [OF anchors ref_base a b c d]
  show ?thesis by blast
qed

text \<open>
  Claim C7. For every HTML text and every base URL that parses, \<^verbatim>\<open>extractImageLinks\<close>
  returns a list without duplicates that holds exactly the strings of \<^verbatim>\<open>resolvedUrls\<close>
  (the resolved URLs that pass the suffix test, in document order), each of them once,
  however many anchors resolve to it. The list is \<^verbatim>\<open>resolvedUrls\<close> with every later copy
  removed, so a URL stands where its first occurrence puts it: of two entries of the
  result, the first occurrence of the earlier one in \<^verbatim>\<open>resolvedUrls\<close> comes before every
  occurrence of the later one.
\<close>

theorem extractImageLinks_deduplicates:
  assumes "url_parse P baseUrl = Some base"
  shows "\<exists>links. extractImageLinks P htmlText baseUrl = Inr links
      \<and> distinct links
      \<and> set links = set (resolvedUrls P (anchor_hrefs P htmlText) base)
      \<and> (\<forall>url \<in> set (resolvedUrls P (anchor_hrefs P htmlText) base). count_list links url = 1)
      \<and> links = first_occurrences (resolvedUrls P (anchor_hrefs P htmlText) base)
      \<and> (\<forall>i j. i < j \<and> j < length links \<longrightarrow>
            (\<exists>pre post. resolvedUrls P (anchor_hrefs P htmlText) base = pre @ links ! i # post
               \<and> links ! i \<notin> set pre \<and> links ! j \<notin> set pre))"
proof -
  let ?q = "resolvedUrls P (anchor_hrefs P htmlText) base"
  let ?links = "Array_from_Set ?q"
  have result: "extractImageLinks P htmlText baseUrl = Inr ?links"
    using assms by (simp add: extractImageLinks_def)
  have once: "\<forall>url \<in> set ?q. count_list ?links url = 1"
    by (simp add: count_list_distinct distinct_Array_from_Set set_Array_from_Set)
  have order: "\<forall>i j. i < j \<and> j < length ?links \<longrightarrow>
      (\<exists>pre post. ?q = pre @ ?links ! i # post \<and> ?links ! i \<notin> set pre \<and> ?links ! j \<notin> set pre)"
    using Array_from_Set_order [of _ _ ?q] by blast
  from result once order show ?thesis
    using distinct_Array_from_Set [of ?q] set_Array_from_Set [of ?q]
      Array_from_Set_first_occurrences [of ?q]
    by blast
qed

theorem extractImageLinks_deduplicates_witness:
  "url_parse ref_platform ''https://site.test/page'' =
     Some \<lparr>origin = ''https://site.test'', path = ''/page'', rest = ''''\<rparr>
   \<and> resolvedUrls ref_platform
       (anchor_hrefs ref_platform (concat (map anchor_tag [''a.png'', ''/b.JPG'', ''/a.png'', ''b.JPG''])))
       \<lparr>origin = ''https://site.test'', path = ''/page'', rest = ''''\<rparr> =
       [''https://site.test/a.png'', ''https://site.test/b.JPG'',
        ''https://site.test/a.png'', ''https://site.test/b.JPG'']
   \<and> extractImageLinks ref_platform
       (concat (map anchor_tag [''a.png'', ''/b.JPG'', ''/a.png'', ''b.JPG'']))
       ''https://site.test/page'' =
       Inr [''https://site.test/a.png'', ''https://site.test/b.JPG'']"
proof -
  let ?html = "concat (map anchor_tag [''a.png'', ''/b.JPG'', ''/a.png'', ''b.JPG''])"
  let ?base = "\<lparr>origin = ''https://site.test'', path = ''/page'', rest = ''''\<rparr>"
  have anchors: "anchor_hrefs ref_platform ?html = [''a.png'', ''/b.JPG'', ''/a.png'', ''b.JPG'']"
    by (simp add: ref_platform_def scan_simps)
  have resolved: "resolvedUrls ref_platform (anchor_hrefs ref_platform ?html) ?base =
      [''https://site.test/a.png'', ''https://site.test/b.JPG'',
       ''https://site.test/a.png'', ''https://site.test/b.JPG'']"
    unfolding anchors by (simp add: resolvedUrls_def suffix_simps ref_url_simps)
  from extractImageLinks_deduplicates [OF ref_base, of ?html]
  obtain links where "extractImageLinks ref_platform ?html ''https://site.test/page'' = Inr links"
    and "links = first_occurrences (resolvedUrls ref_platform (anchor_hrefs ref_platform ?html) ?base)"
    by blast
  then have "extractImageLinks ref_platform ?html ''https://site.test/page'' =
      Inr [''https://site.test/a.png'', ''https://site.test/b.JPG'']"
    unfolding resolved by simp
  with ref_base resolved show ?thesis by blast
qed

text \<open>
  Claim C10. For every HTML text and every base URL string that parses,
  \<^verbatim>\<open>extractImageLinks\<close> returns a list and raises nothing; the list holds the
  serialisations of the image URLs that some anchor resolves to, so an anchor whose
  \<^verbatim>\<open>href\<close> does not resolve adds nothing and raises nothing. For a base URL string that
  does not parse, the exception of \<^verbatim>\<open>new URL(baseUrl)\<close> leaves the function; such a
  string exists as soon as the platform rejects the empty string, as it does.
\<close>

theorem extractImageLinks_raises_only_on_base:
  "(\<forall>base. url_parse P baseUrl = Some base \<longrightarrow>
      (\<exists>links. extractImageLinks P htmlText baseUrl = Inr links
         \<and> set links = url_toString P `
             {u. has_image_suffix P u
                 \<and> (\<exists>href \<in> set (anchor_hrefs P htmlText). url_resolve P href base = Some u)}))
   \<and> (url_parse P baseUrl = None \<longrightarrow>
        extractImageLinks P htmlText baseUrl = Inl (ErrorObj (url_error P baseUrl)))
   \<and> (url_parse P [] = None \<longrightarrow> (\<exists>invalid e. extractImageLinks P htmlText invalid = Inl e))"
proof -
  have ok: "\<exists>links. extractImageLinks P htmlText baseUrl = Inr links
         \<and> set links = url_toString P `
             {u. has_image_suffix P u
                 \<and> (\<exists>href \<in> set (anchor_hrefs P htmlText). url_resolve P href base = Some u)}"
    if "url_parse P baseUrl = Some base" for base
  proof -
    have "set (resolvedUrls P (anchor_hrefs P htmlText) base) = url_toString P `
             {u. has_image_suffix P u
                 \<and> (\<exists>href \<in> set (anchor_hrefs P htmlText). url_resolve P href base = Some u)}"
    proof -
      have "set (filter (has_image_suffix P)
                (filter_Boolean (map (\<lambda>href. url_resolve P href base) (anchor_hrefs P htmlText)))) =
            {u. has_image_suffix P u
                 \<and> (\<exists>href \<in> set (anchor_hrefs P htmlText). url_resolve P href base = Some u)}"
        by (force simp: set_filter_Boolean)
      then show ?thesis by (simp add: resolvedUrls_def)
    qed
    with that show ?thesis
      by (simp add: extractImageLinks_def set_Array_from_Set)
  qed
  have raises: "extractImageLinks P htmlText b = Inl (ErrorObj (url_error P b))"
    if "url_parse P b = None" for b
    using that by (simp add: extractImageLinks_def)
  from ok raises show ?thesis by blast
qed

theorem extractImageLinks_raises_only_on_base_witness:
  "url_parse ref_platform ''https://site.test/page'' =
     Some \<lparr>origin = ''https://site.test'', path = ''/page'', rest = ''''\<rparr>
   \<and> url_resolve ref_platform ''http://''
       \<lparr>origin = ''https://site.test'', path = ''/page'', rest = ''''\<rparr> = None
   \<and> (\<exists>links. extractImageLinks ref_platform
          (concat (map anchor_tag [''a.png'', ''http://'', ''x.jpg''])) ''https://site.test/page'' =
          Inr links)
   \<and> extractImageLinks ref_platform
          (concat (map anchor_tag [''a.png'', ''http://'', ''x.jpg''])) ''https://site.test/page'' =
          Inr [''https://site.test/a.png'', ''https://site.test/x.jpg'']
   \<and> url_parse ref_platform [] = None
   \<and> extractImageLinks ref_platform (concat (map anchor_tag [''a.png'', ''http://'', ''x.jpg''])) [] =
       Inl (ErrorObj (url_error ref_platform []))"
proof -
  let ?html = "concat (map anchor_tag [''a.png'', ''http://'', ''x.jpg''])"
  let ?base = "\<lparr>origin = ''https://site.test'', path = ''/page'', rest = ''''\<rparr>"
  note inst = extractImageLinks_raises_only_on_base [of ref_platform _ ?html]
  have dropped: "url_resolve ref_platform ''http://'' ?base = None"
    by (simp add: ref_url_simps)
  have anchors: "anchor_hrefs ref_platform ?html = [''a.png'', ''http://'', ''x.jpg'']"
    by (simp add: ref_platform_def scan_simps)
  have resolved: "resolvedUrls ref_platform (anchor_hrefs ref_platform ?html) ?base =
      [''https://site.test/a.png'', ''https://site.test/x.jpg'']"
    unfolding anchors by (simp add: resolvedUrls_def suffix_simps ref_url_simps)
  have links: "extractImageLinks ref_platform ?html ''https://site.test/page'' =
      Inr [''https://site.test/a.png'', ''https://site.test/x.jpg'']"
    using ref_base resolved
    by (simp add: extractImageLinks_def Array_from_Set_def set_add_def)
  have invalid: "url_parse ref_platform [] = None"
    by (simp add: ref_url_simps)
  from inst [of "''https://site.test/page''", THEN conjunct1, THEN spec, THEN mp, OF ref_base]
  have returns: "\<exists>links. extractImageLinks ref_platform ?html ''https://site.test/page'' = Inr links"
    by blast
  from inst [of "[]", THEN conjunct2, THEN conjunct1, THEN mp, OF invalid]
    ref_base dropped returns links invalid
  show ?thesis by blast
qed

section \<open>The selection index\<close>

lemma selectedIndex_handleSubmit_start: "selectedIndex (fst (handleSubmit_start P s)) = 0"
  using handleSubmit_start_cases [of P s] by (auto simp: invalid_submission_def)

lemma handleSubmit_resume_fields:
  "selectedIndex (handleSubmit_resume P normalizedUrl r s) = selectedIndex s"
  "\<not> loading (handleSubmit_resume P normalizedUrl r s)"
  by (simp_all add: handleSubmit_resume_def try_block_def
      split: sum.splits fetch_result.splits js_thrown.splits)

lemma step_preserves_inv:
  assumes "world_inv w" and "step P e w = Some w'"
  shows "world_inv w'"
proof -
  obtain s pend where w: "w = (s, pend)" by (cases w)
  show ?thesis
  proof (cases e)
    case (ChangeInput t)
    with assms w show ?thesis by (auto simp: world_inv_def split: if_splits)
  next
    case Submit
    with assms w have idle: "\<not> loading s" and pend: "pend = None"
      by (auto simp: world_inv_def split: if_splits)
    from handleSubmit_start_cases [of P s] show ?thesis
    proof
      assume "handleSubmit_start P s = (invalid_submission s, None)"
      with assms w Submit idle pend show ?thesis
        by (auto simp: world_inv_def invalid_submission_def)
    next
      assume "\<exists>normalizedUrl. handleSubmit_start P s =
         (s\<lparr>loading := True, error := [], imageUrls := [], selectedIndex := 0\<rparr>, Some normalizedUrl)"
      with assms w Submit idle show ?thesis
        by (auto simp: world_inv_def)
    qed
  next
    case (FetchSettled r)
    with assms w obtain normalizedUrl where pend: "pend = Some normalizedUrl"
      and w': "w' = (handleSubmit_resume P normalizedUrl r s, None)"
      by (auto split: option.splits)
    from assms(1) w pend have "loading s" and "imageUrls s = []" and "selectedIndex s = 0"
      by (auto simp: world_inv_def split: if_splits)
    with w' show ?thesis
      by (simp add: world_inv_def handleSubmit_resume_fields)
  next
    case (ClickItem i)
    with assms w show ?thesis by (auto simp: world_inv_def split: if_splits)
  next
    case ClickPrev
    with assms w show ?thesis by (auto simp: world_inv_def handlePrev_def split: if_splits)
  next
    case ClickNext
    with assms w show ?thesis by (auto simp: world_inv_def handleNext_def split: if_splits)
  next
    case (KeyDown key)
    with assms w show ?thesis
      by (auto simp: world_inv_def handleKeyDown_def handlePrev_def handleNext_def split: if_splits)
  qed
qed

lemma run_preserves_inv:
  "world_inv w \<Longrightarrow> run P events w = Some w' \<Longrightarrow> world_inv w'"
proof (induction events arbitrary: w)
  case Nil
  then show ?case by simp
next
  case (Cons e events)
  from Cons.prems(2) obtain w1 where "step P e w = Some w1" and "run P events w1 = Some w'"
    by (auto split: option.splits)
  with Cons.IH Cons.prems(1) step_preserves_inv show ?case by blast
qed

lemma world_inv_initial: "world_inv initial_world"
  by (simp add: world_inv_def initial_world_def initial_state_def)

lemma imageUrls_navigation:
  "imageUrls (handlePrev s) = imageUrls s"
  "imageUrls (handleNext s) = imageUrls s"
  "imageUrls (handleKeyDown key s) = imageUrls s"
  by (simp_all add: handlePrev_def handleNext_def handleKeyDown_def)

lemma step_replacing_list:
  assumes "world_inv (s, pend)" and "step P e (s, pend) = Some (s', pend')"
    and "e = Submit \<or> imageUrls s' \<noteq> imageUrls s"
  shows "selectedIndex s' = 0"
proof (cases e)
  case Submit
  with assms(2) have "s' = fst (handleSubmit_start P s)"
    by (auto split: if_splits prod.splits option.splits)
  then show ?thesis by (simp add: selectedIndex_handleSubmit_start)
next
  case (FetchSettled r)
  with assms(2) obtain normalizedUrl where pend: "pend = Some normalizedUrl"
    and s': "s' = handleSubmit_resume P normalizedUrl r s"
    by (auto split: option.splits)
  from assms(1) pend have "selectedIndex s = 0"
    by (auto simp: world_inv_def split: if_splits)
  with s' show ?thesis by (simp add: handleSubmit_resume_fields)
next
  case (ChangeInput t)
  with assms show ?thesis by (auto split: if_splits)
next
  case (ClickItem i)
  with assms show ?thesis by (auto split: if_splits)
next
  case ClickPrev
  with assms show ?thesis by (auto simp: imageUrls_navigation)
next
  case ClickNext
  with assms show ?thesis by (auto simp: imageUrls_navigation)
next
  case (KeyDown key)
  with assms show ?thesis by (auto simp: imageUrls_navigation)
qed

lemma browse_run_result:
  "run ref_platform browse_run initial_world =
     Some (\<lparr>urlInput = ''site.test/page'',
            imageUrls = [''https://site.test/a.png'', ''https://site.test/b.JPG''],
            selectedIndex = 1, loading = False, error = []\<rparr>, None)"
proof -
  have anchors: "anchor_hrefs ref_platform (concat (map anchor_tag [''a.png'', ''/b.JPG''])) =
      [''a.png'', ''/b.JPG'']"
    by (simp add: ref_platform_def scan_simps)
  have resolved: "resolvedUrls ref_platform
      (anchor_hrefs ref_platform (concat (map anchor_tag [''a.png'', ''/b.JPG''])))
      \<lparr>origin = ''https://site.test'', path = ''/page'', rest = ''''\<rparr> =
      [''https://site.test/a.png'', ''https://site.test/b.JPG'']"
    unfolding anchors by (simp add: resolvedUrls_def suffix_simps ref_url_simps)
  have links: "extractImageLinks ref_platform (concat (map anchor_tag [''a.png'', ''/b.JPG'']))
      ''https://site.test/page'' = Inr [''https://site.test/a.png'', ''https://site.test/b.JPG'']"
    using ref_base resolved by (simp add: extractImageLinks_def Array_from_Set_def set_add_def)
  have start: "handleSubmit_start ref_platform (initial_state\<lparr>urlInput := ''site.test/page''\<rparr>) =
      (\<lparr>urlInput = ''site.test/page'', imageUrls = [], selectedIndex = 0, loading = True,
        error = []\<rparr>, Some ''https://site.test/page'')"
    by (simp add: handleSubmit_start_def ensureAbsoluteUrl_def trim_def initial_state_def
        ref_url_simps)
  show ?thesis
    using start links
    by (simp add: browse_run_def initial_world_def handleSubmit_resume_def
        try_block_def handleKeyDown_def handleNext_def initial_state_def)
qed

text \<open>
  Claim C3. In every state the user interface can reach from its initial state, a
  non-empty image list has the selection index within \<open>0 \<le> index < length\<close>; and every
  event that is a submission, whether the input fails to normalise or not, or that
  changes the image list (the arrival of the links after the fetch), leaves the
  selection index at 0.
\<close>

theorem selection_index_invariant:
  assumes "run P events initial_world = Some (s, pend)"
  shows "(imageUrls s \<noteq> [] \<longrightarrow>
            0 \<le> selectedIndex s \<and> selectedIndex s < int (length (imageUrls s)))
       \<and> (\<forall>e s' pend'. step P e (s, pend) = Some (s', pend')
              \<and> (e = Submit \<or> imageUrls s' \<noteq> imageUrls s) \<longrightarrow> selectedIndex s' = 0)"
proof -
  have inv: "world_inv (s, pend)"
    using run_preserves_inv [OF world_inv_initial assms] .
  then have "imageUrls s \<noteq> [] \<longrightarrow>
      0 \<le> selectedIndex s \<and> selectedIndex s < int (length (imageUrls s))"
    by (simp add: world_inv_def)
  moreover have "\<forall>e s' pend'. step P e (s, pend) = Some (s', pend')
      \<and> (e = Submit \<or> imageUrls s' \<noteq> imageUrls s) \<longrightarrow> selectedIndex s' = 0"
    using step_replacing_list [OF inv] by blast
  ultimately show ?thesis by blast
qed

theorem selection_index_invariant_witness:
  "run ref_platform browse_run initial_world =
     Some (\<lparr>urlInput = ''site.test/page'',
            imageUrls = [''https://site.test/a.png'', ''https://site.test/b.JPG''],
            selectedIndex = 1, loading = False, error = []\<rparr>, None)
   \<and> imageUrls \<lparr>urlInput = ''site.test/page'',
            imageUrls = [''https://site.test/a.png'', ''https://site.test/b.JPG''],
            selectedIndex = 1, loading = False, error = []\<rparr> \<noteq> []
   \<and> 0 \<le> selectedIndex \<lparr>urlInput = ''site.test/page'',
            imageUrls = [''https://site.test/a.png'', ''https://site.test/b.JPG''],
            selectedIndex = 1, loading = False, error = []\<rparr>
   \<and> selectedIndex \<lparr>urlInput = ''site.test/page'',
            imageUrls = [''https://site.test/a.png'', ''https://site.test/b.JPG''],
            selectedIndex = 1, loading = False, error = []\<rparr>
       < int (length (imageUrls \<lparr>urlInput = ''site.test/page'',
            imageUrls = [''https://site.test/a.png'', ''https://site.test/b.JPG''],
            selectedIndex = 1, loading = False, error = []\<rparr>))
   \<and> step ref_platform Submit (\<lparr>urlInput = ''site.test/page'',
            imageUrls = [''https://site.test/a.png'', ''https://site.test/b.JPG''],
            selectedIndex = 1, loading = False, error = []\<rparr>, None) =
       Some (\<lparr>urlInput = ''site.test/page'', imageUrls = [], selectedIndex = 0, loading = True,
              error = []\<rparr>, Some ''https://site.test/page'')
   \<and> selectedIndex \<lparr>urlInput = ''site.test/page'', imageUrls = [], selectedIndex = 0,
         loading = True, error = []\<rparr> = 0"
proof -
  let ?s = "\<lparr>urlInput = ''site.test/page'',
            imageUrls = [''https://site.test/a.png'', ''https://site.test/b.JPG''],
            selectedIndex = 1, loading = False, error = []\<rparr>"
  let ?s' = "\<lparr>urlInput = ''site.test/page'', imageUrls = [], selectedIndex = 0, loading = True,
              error = []\<rparr>"
  note inst = selection_index_invariant [OF browse_run_result]
  have nonempty: "imageUrls ?s \<noteq> []" by simp
  have resubmit: "step ref_platform Submit (?s, None) = Some (?s', Some ''https://site.test/page'')"
    by (simp add: handleSubmit_start_def ensureAbsoluteUrl_def trim_def ref_url_simps)
  from inst [THEN conjunct1, THEN mp, OF nonempty]
  have range: "0 \<le> selectedIndex ?s \<and> selectedIndex ?s < int (length (imageUrls ?s))" .
  from inst [THEN conjunct2, THEN spec, THEN spec, THEN spec, THEN mp, of Submit ?s'
      "Some ''https://site.test/page''"] resubmit
  have reset: "selectedIndex ?s' = 0" by blast
  from browse_run_result nonempty range resubmit reset show ?thesis by blast
qed

section \<open>Idempotence of the normaliser\<close>

text \<open>The reference platform parses what it serialises, to the same URL.\<close>

lemma ref_scheme_cases:
  assumes "ref_scheme s = Some sch"
  obtains "sch = ''https://''" "s = ''https://'' @ drop 8 s"
  | "sch = ''http://''" "s = ''http://'' @ drop 7 s"
proof -
  from assms consider "take 8 s = ''https://''" "sch = ''https://''"
    | "take 7 s = ''http://''" "sch = ''http://''"
    by (auto simp: ref_scheme_def split: if_splits)
  then show ?thesis
  proof cases
    case 1
    from append_take_drop_id [of 8 s] 1(1) have "s = ''https://'' @ drop 8 s" by simp
    with 1 that show ?thesis by blast
  next
    case 2
    from append_take_drop_id [of 7 s] 2(1) have "s = ''http://'' @ drop 7 s" by simp
    with 2 that show ?thesis by blast
  qed
qed

lemma ref_scheme_append:
  assumes "sch = ''https://'' \<or> sch = ''http://''"
  shows "ref_scheme (sch @ r) = Some sch"
  using assms by (auto simp: ref_scheme_def)

lemma slash_not_host_char: "\<not> host_char CHR ''/''" "path_char CHR ''/''"
  by (simp_all add: host_char_def path_char_def)

lemma ref_parse_components:
  assumes "ref_parse s = Some u"
  obtains sch host where "sch = ''https://'' \<or> sch = ''http://''"
    and "origin u = sch @ host" and "host \<noteq> []" and "\<forall>c \<in> set host. host_char c"
    and "path u \<noteq> []" and "hd (path u) = CHR ''/''" and "\<forall>c \<in> set (path u). path_char c"
    and "rest u = [] \<or> \<not> path_char (hd (rest u))"
proof -
  from assms obtain sch where sch: "ref_scheme s = Some sch"
    by (auto simp: ref_parse_def split: option.splits)
  then have sch_cases: "sch = ''https://'' \<or> sch = ''http://''"
    by (auto elim: ref_scheme_cases)
  define r where "r = drop (length sch) s"
  define host where "host = takeWhile host_char r"
  define tail where "tail = dropWhile host_char r"
  define p where "p = takeWhile path_char tail"
  from assms sch have host_ne: "host \<noteq> []"
    and tail_ok: "tail = [] \<or> \<not> is_js_space (hd tail)"
    and u: "u = \<lparr>origin = sch @ host, path = (if p = [] then ''/'' else p),
                 rest = dropWhile path_char tail\<rparr>"
    by (auto simp: ref_parse_def Let_def r_def host_def tail_def p_def split: if_splits)
  have host_chars: "\<forall>c \<in> set host. host_char c"
    unfolding host_def by (auto dest: set_takeWhileD)
  have p_chars: "\<forall>c \<in> set p. path_char c"
    unfolding p_def by (auto dest: set_takeWhileD)
  have hd_p: "hd p = CHR ''/''" if "p \<noteq> []"
  proof -
    from that have tail_ne: "tail \<noteq> []" by (auto simp: p_def)
    from that have "hd p = hd tail" "path_char (hd tail)"
      unfolding p_def by (cases tail; auto split: if_splits)+
    moreover from tail_ne have "\<not> host_char (hd tail)"
      unfolding tail_def by (rule hd_dropWhile)
    moreover from tail_ne tail_ok have "\<not> is_js_space (hd tail)" by simp
    ultimately show ?thesis by (auto simp: host_char_def path_char_def)
  qed
  have rest_ok: "rest u = [] \<or> \<not> path_char (hd (rest u))"
    using u hd_dropWhile [of path_char tail] by auto
  from u hd_p p_chars have "path u \<noteq> []" "hd (path u) = CHR ''/''"
    "\<forall>c \<in> set (path u). path_char c"
    by (auto simp: path_char_def)
  with that [OF sch_cases _ host_ne host_chars _ _ _ rest_ok] u show ?thesis by simp
qed

lemma ref_parse_toString:
  assumes "ref_parse s = Some u"
  shows "ref_parse (ref_toString u) = Some u"
proof -
  from assms obtain sch host where sch: "sch = ''https://'' \<or> sch = ''http://''"
    and origin: "origin u = sch @ host" and host: "host \<noteq> []" "\<forall>c \<in> set host. host_char c"
    and path: "path u \<noteq> []" "hd (path u) = CHR ''/''" "\<forall>c \<in> set (path u). path_char c"
    and rest: "rest u = [] \<or> \<not> path_char (hd (rest u))"
    by (rule ref_parse_components)
  from path obtain q where q: "path u = CHR ''/'' # q" by (cases "path u") auto
  let ?r = "host @ path u @ rest u"
  have str: "ref_toString u = sch @ ?r" by (simp add: ref_toString_def origin)
  have scheme: "ref_scheme (sch @ ?r) = Some sch" using sch by (rule ref_scheme_append)
  have dropped: "drop (length sch) (sch @ ?r) = ?r" by simp
  have take_host: "takeWhile host_char ?r = host"
    using host(2) q by (simp add: takeWhile_append2 slash_not_host_char)
  have drop_host: "dropWhile host_char ?r = path u @ rest u"
    using host(2) q by (simp add: dropWhile_append2 slash_not_host_char)
  have take_rest: "takeWhile path_char (rest u) = []"
    using rest by (cases "rest u") auto
  have drop_rest: "dropWhile path_char (rest u) = rest u"
    using rest by (cases "rest u") auto
  have take_path: "takeWhile path_char (path u @ rest u) = path u"
    using path(3) take_rest by (simp add: takeWhile_append2)
  have drop_path: "dropWhile path_char (path u @ rest u) = rest u"
    using path(3) drop_rest by (simp add: dropWhile_append2)
  have tail_hd: "\<not> is_js_space (hd (path u @ rest u))"
    using q by (simp add: is_js_space_def)
  have "ref_parse (sch @ ?r) = Some \<lparr>origin = sch @ host, path = path u, rest = rest u\<rparr>"
    unfolding ref_parse_def scheme
    using host(1) path(1) tail_hd
    by (simp only: option.case dropped Let_def take_host drop_host take_path drop_path)
       simp
  with str origin show ?thesis by simp
qed

lemma ref_platform_reparses:
  assumes "url_parse ref_platform s = Some u"
  shows "url_toString ref_platform u \<noteq> []
      \<and> (\<exists>u'. url_parse ref_platform (url_toString ref_platform u) = Some u'
            \<and> url_toString ref_platform u' = url_toString ref_platform u)"
proof -
  from assms have parsed: "ref_parse s = Some u" by (simp add: ref_platform_def)
  then obtain sch host where "origin u = sch @ host" "host \<noteq> []"
    by (rule ref_parse_components)
  then have "ref_toString u \<noteq> []" by (simp add: ref_toString_def)
  with ref_parse_toString [OF parsed] show ?thesis by (simp add: ref_platform_def)
qed

text \<open>
  Claim C9. For every input on which \<^verbatim>\<open>ensureAbsoluteUrl\<close> succeeds, applying it to the
  string it returned returns that string again. The application contributes the order
  of its two attempts; that a serialised URL is not empty, parses, and serialises to
  itself again is the guarantee of the URL Standard on parsing and serialising, and is
  the first hypothesis.
\<close>

theorem ensureAbsoluteUrl_idempotent:
  assumes reparses: "\<And>s u. url_parse P s = Some u \<Longrightarrow>
      url_toString P u \<noteq> []
      \<and> (\<exists>u'. url_parse P (url_toString P u) = Some u' \<and> url_toString P u' = url_toString P u)"
    and succeeds: "ensureAbsoluteUrl P rawUrl = Some normalized"
  shows "ensureAbsoluteUrl P normalized = Some normalized"
proof -
  from succeeds obtain s u where parsed: "url_parse P s = Some u"
    and normalized: "normalized = url_toString P u"
    by (auto simp: ensureAbsoluteUrl_def split: if_splits option.splits)
  from reparses [OF parsed] normalized obtain u' where "normalized \<noteq> []"
    and "url_parse P normalized = Some u'" and "url_toString P u' = normalized"
    by auto
  then show ?thesis by (simp add: ensureAbsoluteUrl_def)
qed

theorem ensureAbsoluteUrl_idempotent_witness:
  "ensureAbsoluteUrl ref_platform ''site.test?x=1'' = Some ''https://site.test/?x=1''
   \<and> ensureAbsoluteUrl ref_platform ''https://site.test/?x=1'' = Some ''https://site.test/?x=1''"
proof -
  have first: "ensureAbsoluteUrl ref_platform ''site.test?x=1'' = Some ''https://site.test/?x=1''"
    by (simp add: ensureAbsoluteUrl_def ref_url_simps)
  have again: "ensureAbsoluteUrl ref_platform ''https://site.test/?x=1'' =
      Some ''https://site.test/?x=1''"
  proof (rule ensureAbsoluteUrl_idempotent)
    fix s u
    assume "url_parse ref_platform s = Some u"
    then show "url_toString ref_platform u \<noteq> []
      \<and> (\<exists>u'. url_parse ref_platform (url_toString ref_platform u) = Some u'
            \<and> url_toString ref_platform u' = url_toString ref_platform u)"
      by (rule ref_platform_reparses)
  next
    show "ensureAbsoluteUrl ref_platform ''site.test?x=1'' = Some ''https://site.test/?x=1''"
      by (rule first)
  qed
  from first again show ?thesis by blast
qed

end
